theory Spec2Isabelle
  imports Complex_Main
begin

section \<open>JavaScript values\<close>

text \<open>
  The values the assertion engine of \<^verbatim>\<open>src/lib/test-framework.js\<close> inspects.
  A number is \<open>NaN\<close>, negative zero, or a finite value (\<open>Fin 0\<close> is positive zero).
  Functions, arrays and objects carry the identity of their reference (a \<open>nat\<close>): two
  of them are \<open>===\<close> exactly when they are the same reference. Arrays and objects also
  carry the name of what \<^verbatim>\<open>.constructor\<close> evaluates to, and an object lists its own
  enumerable properties.
\<close>

datatype number = NaN | NegZero | Fin real

datatype jsval =
    JUndefined
  | JNull
  | JBool bool
  | JNum number
  | JStr string
  | JFun nat
  | JArr nat string "jsval list"
  | JObj nat string "(string \<times> jsval) list"

text \<open>\<^verbatim>\<open>x === y\<close> on numbers: NaN equals nothing, the two zeros are equal.\<close>

fun number_eq :: "number \<Rightarrow> number \<Rightarrow> bool" where
  "number_eq NaN _ = False"
| "number_eq _ NaN = False"
| "number_eq NegZero NegZero = True"
| "number_eq NegZero (Fin y) = (y = 0)"
| "number_eq (Fin x) NegZero = (x = 0)"
| "number_eq (Fin x) (Fin y) = (x = y)"

text \<open>\<^verbatim>\<open>a === b\<close>: no coercion; references compared by identity.\<close>

fun strict_eq :: "jsval \<Rightarrow> jsval \<Rightarrow> bool" where
  "strict_eq JUndefined JUndefined = True"
| "strict_eq JNull JNull = True"
| "strict_eq (JBool x) (JBool y) = (x = y)"
| "strict_eq (JNum x) (JNum y) = number_eq x y"
| "strict_eq (JStr x) (JStr y) = (x = y)"
| "strict_eq (JFun i) (JFun j) = (i = j)"
| "strict_eq (JArr i _ _) (JArr j _ _) = (i = j)"
| "strict_eq (JObj i _ _) (JObj j _ _) = (i = j)"
| "strict_eq _ _ = False"

text \<open>\<^verbatim>\<open>Object.is(a, b)\<close>: as \<open>===\<close>, but NaN is NaN and the two zeros differ.\<close>

fun Object_is :: "jsval \<Rightarrow> jsval \<Rightarrow> bool" where
  "Object_is (JNum x) (JNum y) = (x = y)"
| "Object_is a b = strict_eq a b"

fun typeof :: "jsval \<Rightarrow> string" where
  "typeof JUndefined = ''undefined''"
| "typeof JNull = ''object''"
| "typeof (JBool _) = ''boolean''"
| "typeof (JNum _) = ''number''"
| "typeof (JStr _) = ''string''"
| "typeof (JFun _) = ''function''"
| "typeof (JArr _ _ _) = ''object''"
| "typeof (JObj _ _ _) = ''object''"

fun isArray :: "jsval \<Rightarrow> bool" where
  "isArray (JArr _ _ _) = True"
| "isArray _ = False"

text \<open>\<^verbatim>\<open>a == null\<close> holds of \<^verbatim>\<open>null\<close> and \<^verbatim>\<open>undefined\<close> only.\<close>

fun loose_eq_null :: "jsval \<Rightarrow> bool" where
  "loose_eq_null JUndefined = True"
| "loose_eq_null JNull = True"
| "loose_eq_null _ = False"

fun Object_keys :: "jsval \<Rightarrow> string list" where
  "Object_keys (JObj _ _ ps) = map fst ps"
| "Object_keys _ = []"

text \<open>\<^verbatim>\<open>a[key]\<close>: the value of the property, \<^verbatim>\<open>undefined\<close> when there is none.\<close>

fun get_prop :: "jsval \<Rightarrow> string \<Rightarrow> jsval" where
  "get_prop (JObj _ _ ps) key = (case map_of ps key of Some v \<Rightarrow> v | None \<Rightarrow> JUndefined)"
| "get_prop _ key = JUndefined"

fun elements :: "jsval \<Rightarrow> jsval list" where
  "elements (JArr _ _ xs) = xs"
| "elements _ = []"

section \<open>Thrown values\<close>

text \<open>
  A message built by a template literal is kept as its parts: the literal text, and the
  values handed to \<^verbatim>\<open>JSON.stringify\<close>. What a \<^verbatim>\<open>throw\<close> or a rejected promise
  carries is an \<^verbatim>\<open>Error\<close> with its message, a \<^verbatim>\<open>TypeError\<close> of the engine,
  \<^verbatim>\<open>null\<close>/\<^verbatim>\<open>undefined\<close>, or any other value (reading \<^verbatim>\<open>.message\<close> of it
  gives \<^verbatim>\<open>undefined\<close>).
\<close>

datatype part = Lit string | Json jsval

datatype thrown = Error "part list" | TypeError | ThrownNullish | ThrownOther

text \<open>\<^verbatim>\<open>a.constructor\<close>: a TypeError on \<^verbatim>\<open>null\<close> and \<^verbatim>\<open>undefined\<close>.\<close>

fun constructor_of :: "jsval \<Rightarrow> thrown + string" where
  "constructor_of JUndefined = Inl TypeError"
| "constructor_of JNull = Inl TypeError"
| "constructor_of (JBool _) = Inr ''Boolean''"
| "constructor_of (JNum _) = Inr ''Number''"
| "constructor_of (JStr _) = Inr ''String''"
| "constructor_of (JFun _) = Inr ''Function''"
| "constructor_of (JArr _ c _) = Inr c"
| "constructor_of (JObj _ c _) = Inr c"

section \<open>The assertion engine (class Expect)\<close>

lemma size_get_prop: "key \<in> set (Object_keys a) \<Longrightarrow> size (get_prop a key) < size a"
proof (cases a)
  case (JObj i c ps)
  have "\<And>v. map_of ps key = Some v \<Longrightarrow> size v < Suc (size_list (size_prod (\<lambda>_. 0) size) ps)"
    by (induction ps) (auto split: if_splits)
  moreover assume "key \<in> set (Object_keys a)"
  ultimately show ?thesis using JObj
    by (cases "map_of ps key") (auto simp: map_of_eq_None_iff)
qed auto

lemma size_elements: "x \<in> set (elements a) \<Longrightarrow> size x < size a"
  by (cases a) (auto simp: less_Suc_eq_le size_list_estimation')

text \<open>\<^verbatim>\<open>Expect.deepEqual(a, b)\<close>, lines 539-559.\<close>

function deepEqual :: "jsval \<Rightarrow> jsval \<Rightarrow> bool" where
  "deepEqual a b =
     (if strict_eq a b then True
      else if loose_eq_null a \<or> loose_eq_null b then False
      else if typeof a \<noteq> typeof b then False
      else if typeof a \<noteq> ''object'' then strict_eq a b
      else if isArray a \<and> isArray b then
        (if length (elements a) \<noteq> length (elements b) then False
         else list_all (\<lambda>(item, other). deepEqual item other) (zip (elements a) (elements b)))
      else if isArray a \<noteq> isArray b then False
      else
        (let keysA = Object_keys a; keysB = Object_keys b in
         if length keysA \<noteq> length keysB then False
         else list_all (\<lambda>key. deepEqual (get_prop a key) (get_prop b key)) keysA))"
  by pat_completeness auto
termination
  by (relation "measure (\<lambda>(a, b). size a)")
     (auto simp: size_get_prop dest: set_zip_leftD size_elements)

declare deepEqual.simps [simp del]

text \<open>
  \<^verbatim>\<open>Expect.strictEqual(a, b)\<close>, lines 562-571. Both \<^verbatim>\<open>.constructor\<close> reads happen
  before the comparison, the left one first; either raises on \<^verbatim>\<open>null\<close>.
\<close>

definition strictEqual :: "jsval \<Rightarrow> jsval \<Rightarrow> thrown + bool" where
  "strictEqual a b =
     (if strict_eq a b then Inr True
      else if typeof a \<noteq> typeof b then Inr False
      else if typeof a \<noteq> ''object'' then Inr False
      else if isArray a \<noteq> isArray b then Inr False
      else (case constructor_of a of
              Inl e \<Rightarrow> Inl e
            | Inr ca \<Rightarrow>
               (case constructor_of b of
                  Inl e \<Rightarrow> Inl e
                | Inr cb \<Rightarrow> if ca \<noteq> cb then Inr False else Inr (deepEqual a b))))"

record expect_obj =
  actual :: jsval
  isNot :: bool

definition expect :: "jsval \<Rightarrow> expect_obj" where
  "expect a = \<lparr>actual = a, isNot = False\<rparr>"

text \<open>The getter \<^verbatim>\<open>not\<close> flips the flag of the same wrapper.\<close>

definition not_getter :: "expect_obj \<Rightarrow> expect_obj" where
  "not_getter e = e\<lparr>isNot := (\<not> isNot e)\<rparr>"

definition toBe :: "expect_obj \<Rightarrow> jsval \<Rightarrow> thrown + unit" where
  "toBe e expected =
     (let passed = Object_is (actual e) expected in
      if passed = isNot e then
        Inl (Error [Lit ''Expected '', Json (actual e), Lit '' '',
                    Lit (if isNot e then ''not '' else ''''), Lit ''to be '', Json expected])
      else Inr ())"

definition toEqual :: "expect_obj \<Rightarrow> jsval \<Rightarrow> thrown + unit" where
  "toEqual e expected =
     (let passed = deepEqual (actual e) expected in
      if passed = isNot e then
        Inl (Error [Lit ''Expected '', Json (actual e), Lit '' '',
                    Lit (if isNot e then ''not '' else ''''), Lit ''to equal '', Json expected])
      else Inr ())"

definition toStrictEqual :: "expect_obj \<Rightarrow> jsval \<Rightarrow> thrown + unit" where
  "toStrictEqual e expected =
     (case strictEqual (actual e) expected of
        Inl err \<Rightarrow> Inl err
      | Inr passed \<Rightarrow>
          if passed = isNot e then
            Inl (Error [Lit ''Expected '', Json (actual e), Lit '' '',
                        Lit (if isNot e then ''not '' else ''''), Lit ''to strictly equal '',
                        Json expected])
          else Inr ())"

text \<open>
  The words of the specification for strict equality, as predicates to compare the code
  with. Two values have the same container kind at every level when they are identical,
  or agree on being an array and their corresponding elements (of arrays) or property
  values (of objects, under the keys of the left one) do so in turn. They have the same
  constructing type at every level when their constructors are equal and so on downwards.
\<close>

function same_container_kinds :: "jsval \<Rightarrow> jsval \<Rightarrow> bool" where
  "same_container_kinds a b =
     (if strict_eq a b then True
      else if isArray a \<noteq> isArray b then False
      else if isArray a then
        list_all (\<lambda>(item, other). same_container_kinds item other) (zip (elements a) (elements b))
      else list_all (\<lambda>key. same_container_kinds (get_prop a key) (get_prop b key)) (Object_keys a))"
  by pat_completeness auto
termination
  by (relation "measure (\<lambda>(a, b). size a)")
     (auto simp: size_get_prop dest: set_zip_leftD size_elements)

declare same_container_kinds.simps [simp del]

function same_constructors :: "jsval \<Rightarrow> jsval \<Rightarrow> bool" where
  "same_constructors a b =
     (if constructor_of a \<noteq> constructor_of b then False
      else if isArray a then
        list_all (\<lambda>(item, other). same_constructors item other) (zip (elements a) (elements b))
      else list_all (\<lambda>key. same_constructors (get_prop a key) (get_prop b key)) (Object_keys a))"
  by pat_completeness auto
termination
  by (relation "measure (\<lambda>(a, b). size a)")
     (auto simp: size_get_prop dest: set_zip_leftD size_elements)

declare same_constructors.simps [simp del]

section \<open>The runner (class MicroTest)\<close>

text \<open>
  What the user's callbacks do is not code of the engine. A callback is given by its
  observable behaviour in a world that holds the clock read by \<^verbatim>\<open>performance.now()\<close>
  (in milliseconds) and the list of callbacks called so far, which a callback may
  consult (it stands for the external state callbacks share). The runner is the only
  flow of control, so the world is passed through it.
\<close>

datatype event = HookCalled string | BodyCalled string

record world =
  now :: nat
  trace :: "event list"

text \<open>
  \<^verbatim>\<open>await hook()\<close>: the hook takes some time and then either fulfils or fails (it throws,
  or the promise it returned rejects) with a thrown value. Hooks are taken to settle.
\<close>

datatype outcome = Fulfils | Rejects thrown

record hook =
  hook_label :: string
  hook_fn :: "world \<Rightarrow> nat \<times> outcome"

text \<open>
  A promise returned by a test body never settles, or settles some time after it was
  returned. Calling \<^verbatim>\<open>test.fn()\<close> runs the synchronous part of the body for some time,
  and then returns a value that is not a promise, throws, or returns a promise.
\<close>

datatype settle = Never | After nat outcome

datatype invocation =
    Returns nat
  | ThrowsSync nat thrown
  | ReturnsPromise nat settle

record test_case =
  test_name :: string
  test_fn :: "world \<Rightarrow> invocation"
  test_skip :: bool
  test_only :: bool
  test_timeout :: nat

text \<open>The suite object built by \<^verbatim>\<open>describe\<close> (lines 29-37).\<close>

datatype suite =
  Suite (suite_name: string) (suite_tests: "test_case list")
        (suite_beforeEach: "hook list") (suite_afterEach: "hook list")
        (suite_beforeAll: "hook list") (suite_afterAll: "hook list")
        (suite_nested: "suite list")

text \<open>
  The \<^verbatim>\<open>result\<close> of \<^verbatim>\<open>runTest\<close>, the \<^verbatim>\<open>suiteResults\<close> of \<^verbatim>\<open>runSuite\<close> and
  \<^verbatim>\<open>this.results\<close>.
\<close>

record test_result =
  result_name :: string
  result_passed :: bool
  result_error :: "thrown option"
  result_duration :: nat

record suite_results =
  sr_name :: string
  sr_passed :: nat
  sr_failed :: nat
  sr_skipped :: nat
  sr_tests :: "test_result list"

record report =
  passed :: nat
  failed :: nat
  skipped :: nat
  total :: nat
  duration :: nat
  report_suites :: "suite_results list"

record microtest =
  suites :: "suite list"
  currentSuite :: "suite option"
  results :: report
  beforeEachHooks :: "hook list"
  afterEachHooks :: "hook list"
  beforeAllHooks :: "hook list"
  afterAllHooks :: "hook list"

text \<open>The constructor, lines 8-23.\<close>

definition MicroTest_new :: microtest where
  "MicroTest_new =
     \<lparr>suites = [], currentSuite = None,
      results = \<lparr>passed = 0, failed = 0, skipped = 0, total = 0, duration = 0, report_suites = []\<rparr>,
      beforeEachHooks = [], afterEachHooks = [], beforeAllHooks = [], afterAllHooks = []\<rparr>"

text \<open>
  The \<^verbatim>\<open>options\<close> argument of \<^verbatim>\<open>it\<close>: each field may be absent.
  \<^verbatim>\<open>options.timeout || 5000\<close> also replaces a timeout of 0.
  Registration either throws, leaving the engine as it was, or returns the engine
  with \<^verbatim>\<open>this.currentSuite\<close> updated (lines 58-118).
\<close>

record options =
  opt_skip :: "bool option"
  opt_only :: "bool option"
  opt_timeout :: "nat option"

definition no_options :: options where
  "no_options = \<lparr>opt_skip = None, opt_only = None, opt_timeout = None\<rparr>"

definition it :: "string \<Rightarrow> (world \<Rightarrow> invocation) \<Rightarrow> options \<Rightarrow> microtest \<Rightarrow> thrown + microtest" where
  "it name fn opts m =
     (case currentSuite m of
        None \<Rightarrow> Inl (Error [Lit ''Tests must be defined inside a describe block''])
      | Some (Suite n ts be ae ba aa ns) \<Rightarrow>
          Inr (m\<lparr>currentSuite := Some (Suite n
                 (ts @ [\<lparr>test_name = name, test_fn = fn,
                         test_skip = (case opt_skip opts of Some b \<Rightarrow> b | None \<Rightarrow> False),
                         test_only = (case opt_only opts of Some b \<Rightarrow> b | None \<Rightarrow> False),
                         test_timeout = (case opt_timeout opts of
                                           Some t \<Rightarrow> if t = 0 then 5000 else t
                                         | None \<Rightarrow> 5000)\<rparr>])
                 be ae ba aa ns)\<rparr>))"

definition test :: "string \<Rightarrow> (world \<Rightarrow> invocation) \<Rightarrow> options \<Rightarrow> microtest \<Rightarrow> thrown + microtest" where
  "test name fn opts m = it name fn opts m"

definition skip :: "string \<Rightarrow> (world \<Rightarrow> invocation) \<Rightarrow> microtest \<Rightarrow> thrown + microtest" where
  "skip name fn m = it name fn (no_options\<lparr>opt_skip := Some True\<rparr>) m"

definition only :: "string \<Rightarrow> (world \<Rightarrow> invocation) \<Rightarrow> microtest \<Rightarrow> thrown + microtest" where
  "only name fn m = it name fn (no_options\<lparr>opt_only := Some True\<rparr>) m"

definition beforeEach :: "hook \<Rightarrow> microtest \<Rightarrow> thrown + microtest" where
  "beforeEach fn m =
     (case currentSuite m of
        Some (Suite n ts be ae ba aa ns) \<Rightarrow> Inr (m\<lparr>currentSuite := Some (Suite n ts (be @ [fn]) ae ba aa ns)\<rparr>)
      | None \<Rightarrow> Inr m)"

definition afterEach :: "hook \<Rightarrow> microtest \<Rightarrow> thrown + microtest" where
  "afterEach fn m =
     (case currentSuite m of
        Some (Suite n ts be ae ba aa ns) \<Rightarrow> Inr (m\<lparr>currentSuite := Some (Suite n ts be (ae @ [fn]) ba aa ns)\<rparr>)
      | None \<Rightarrow> Inr m)"

definition beforeAll :: "hook \<Rightarrow> microtest \<Rightarrow> thrown + microtest" where
  "beforeAll fn m =
     (case currentSuite m of
        Some (Suite n ts be ae ba aa ns) \<Rightarrow> Inr (m\<lparr>currentSuite := Some (Suite n ts be ae (ba @ [fn]) aa ns)\<rparr>)
      | None \<Rightarrow> Inr m)"

definition afterAll :: "hook \<Rightarrow> microtest \<Rightarrow> thrown + microtest" where
  "afterAll fn m =
     (case currentSuite m of
        Some (Suite n ts be ae ba aa ns) \<Rightarrow> Inr (m\<lparr>currentSuite := Some (Suite n ts be ae ba (aa @ [fn]) ns)\<rparr>)
      | None \<Rightarrow> Inr m)"

text \<open>Calling a hook advances the clock and is recorded in the trace.\<close>

definition call_hook :: "hook \<Rightarrow> world \<Rightarrow> outcome \<times> world" where
  "call_hook h w =
     (case hook_fn h w of
        (d, out) \<Rightarrow> (out, w\<lparr>now := now w + d, trace := trace w @ [HookCalled (hook_label h)]\<rparr>))"

text \<open>
  \<^verbatim>\<open>error.message\<close> in a catch handler: reading a property of \<^verbatim>\<open>null\<close> or
  \<^verbatim>\<open>undefined\<close> raises a TypeError; of anything else it succeeds.
\<close>

fun read_message :: "thrown \<Rightarrow> thrown option" where
  "read_message ThrownNullish = Some TypeError"
| "read_message _ = None"

text \<open>
  The loops over \<^verbatim>\<open>beforeAll\<close>, \<^verbatim>\<open>afterAll\<close> (lines 154-160, 195-201) and
  \<^verbatim>\<open>afterEach\<close> (lines 249-255): each hook is awaited in its own try, whose handler
  logs \<^verbatim>\<open>error.message\<close>. \<open>Some raised\<close> is an exception leaving the loop.
\<close>

fun run_hooks_logged :: "hook list \<Rightarrow> world \<Rightarrow> thrown option \<times> world" where
  "run_hooks_logged [] w = (None, w)"
| "run_hooks_logged (h # hs) w =
     (case call_hook h w of
        (Fulfils, w') \<Rightarrow> run_hooks_logged hs w'
      | (Rejects error, w') \<Rightarrow>
          (case read_message error of
             Some raised \<Rightarrow> (Some raised, w')
           | None \<Rightarrow> run_hooks_logged hs w'))"

text \<open>The loop over \<^verbatim>\<open>beforeEach\<close> (lines 221-223): the first failure leaves it.\<close>

fun run_beforeEach :: "hook list \<Rightarrow> world \<Rightarrow> thrown option \<times> world" where
  "run_beforeEach [] w = (None, w)"
| "run_beforeEach (h # hs) w =
     (case call_hook h w of
        (Fulfils, w') \<Rightarrow> run_beforeEach hs w'
      | (Rejects error, w') \<Rightarrow> (Some error, w'))"

text \<open>The decimal digits of a number, as a template literal writes it.\<close>

definition digit_char :: "nat \<Rightarrow> char" where
  "digit_char n = ''0123456789'' ! (n mod 10)"

fun show_nat :: "nat \<Rightarrow> string" where
  "show_nat n = (if n < 10 then [digit_char n] else show_nat (n div 10) @ [digit_char (n mod 10)])"

declare show_nat.simps [simp del]

text \<open>
  \<^verbatim>\<open>withTimeout(promise, timeout)\<close>, lines 264-269: a race between the promise and a
  timer started when \<^verbatim>\<open>withTimeout\<close> is called. The result is the time after which
  the race settles and how. A promise that settles no later than the timer wins.
\<close>

definition timeout_error :: "nat \<Rightarrow> thrown" where
  "timeout_error timeout = Error [Lit ''Test timeout after '', Lit (show_nat timeout), Lit ''ms'']"

fun withTimeout :: "settle \<Rightarrow> nat \<Rightarrow> nat \<times> outcome" where
  "withTimeout Never timeout = (timeout, Rejects (timeout_error timeout))"
| "withTimeout (After d out) timeout =
     (if d \<le> timeout then (d, out) else (timeout, Rejects (timeout_error timeout)))"

text \<open>
  \<^verbatim>\<open>await this.withTimeout(test.fn(), test.timeout)\<close>, line 226: the body is called
  first, and what it returns is raced. A value that is not a promise counts as fulfilled.
\<close>

definition run_body :: "test_case \<Rightarrow> world \<Rightarrow> outcome \<times> world" where
  "run_body t w =
     (let w0 = w\<lparr>trace := trace w @ [BodyCalled (test_name t)]\<rparr> in
      case test_fn t w of
        ThrowsSync d error \<Rightarrow> (Rejects error, w0\<lparr>now := now w + d\<rparr>)
      | Returns d \<Rightarrow>
          (case withTimeout (After 0 Fulfils) (test_timeout t) of
             (e, out) \<Rightarrow> (out, w0\<lparr>now := now w + d + e\<rparr>))
      | ReturnsPromise d promise \<Rightarrow>
          (case withTimeout promise (test_timeout t) of
             (e, out) \<Rightarrow> (out, w0\<lparr>now := now w + d + e\<rparr>)))"

text \<open>
  \<^verbatim>\<open>runTest\<close>, lines 209-259. \<open>try_block\<close> is the part inside \<^verbatim>\<open>try\<close> up to the
  await of the race; \<open>Some error\<close> is what the \<^verbatim>\<open>catch\<close> receives. The handler stores
  the error and then reads \<^verbatim>\<open>error.message\<close>; the \<^verbatim>\<open>finally\<close> block runs in every
  case, and an exception leaving it replaces the pending completion.
\<close>

definition try_block :: "test_case \<Rightarrow> suite \<Rightarrow> world \<Rightarrow> thrown option \<times> world" where
  "try_block t s w =
     (case run_beforeEach (suite_beforeEach s) w of
        (Some error, w1) \<Rightarrow> (Some error, w1)
      | (None, w1) \<Rightarrow>
          (case run_body t w1 of
             (Rejects error, w2) \<Rightarrow> (Some error, w2)
           | (Fulfils, w2) \<Rightarrow> (None, w2)))"

definition runTest :: "test_case \<Rightarrow> suite \<Rightarrow> world \<Rightarrow> (thrown + test_result) \<times> world" where
  "runTest t s w =
     (let startTime = now w;
          result = \<lparr>result_name = test_name t, result_passed = False, result_error = None,
                    result_duration = 0\<rparr> in
      case try_block t s w of (caught, w2) \<Rightarrow>
        (let completion =
               (case caught of
                  None \<Rightarrow> Inr (result\<lparr>result_duration := now w2 - startTime, result_passed := True\<rparr>)
                | Some error \<Rightarrow>
                    (case read_message error of
                       Some raised \<Rightarrow> Inl raised
                     | None \<Rightarrow> Inr (result\<lparr>result_duration := now w2 - startTime,
                                           result_error := Some error\<rparr>))) in
         case run_hooks_logged (suite_afterEach s) w2 of
           (Some raised, w3) \<Rightarrow> (Inl raised, w3)
         | (None, w3) \<Rightarrow> (completion, w3)))"

text \<open>The loop over \<^verbatim>\<open>suite.tests\<close>, lines 166-187.\<close>

fun run_tests ::
  "bool \<Rightarrow> suite \<Rightarrow> test_case list \<Rightarrow> suite_results \<times> report \<times> world \<Rightarrow>
   thrown option \<times> suite_results \<times> report \<times> world" where
  "run_tests hasOnly s [] st = (None, st)"
| "run_tests hasOnly s (t # ts) (sr, r, w) =
     (if hasOnly \<and> \<not> test_only t then run_tests hasOnly s ts (sr, r, w)
      else if test_skip t then
        run_tests hasOnly s ts
          (sr\<lparr>sr_skipped := sr_skipped sr + 1\<rparr>,
           r\<lparr>skipped := skipped r + 1, total := total r + 1\<rparr>, w)
      else
        (case runTest t s w of
           (Inl raised, w') \<Rightarrow> (Some raised, sr, r, w')
         | (Inr testResult, w') \<Rightarrow>
             (if result_passed testResult then
                run_tests hasOnly s ts
                  (sr\<lparr>sr_tests := sr_tests sr @ [testResult], sr_passed := sr_passed sr + 1\<rparr>,
                   r\<lparr>passed := passed r + 1, total := total r + 1\<rparr>, w')
              else
                run_tests hasOnly s ts
                  (sr\<lparr>sr_tests := sr_tests sr @ [testResult], sr_failed := sr_failed sr + 1\<rparr>,
                   r\<lparr>failed := failed r + 1, total := total r + 1\<rparr>, w'))))"

text \<open>
  \<^verbatim>\<open>runSuite\<close>, lines 141-204, and the loop over a list of suites (lines 190-192 and
  127-129). The \<^verbatim>\<open>depth\<close> argument only indents the console output.
\<close>

fun runSuite :: "suite \<Rightarrow> report \<times> world \<Rightarrow> thrown option \<times> report \<times> world"
  and runSuites :: "suite list \<Rightarrow> report \<times> world \<Rightarrow> thrown option \<times> report \<times> world" where
  "runSuite (Suite name ts be ae ba aa ns) (r, w) =
     (let suiteResults = \<lparr>sr_name = name, sr_passed = 0, sr_failed = 0, sr_skipped = 0, sr_tests = []\<rparr> in
      case run_hooks_logged ba w of
        (Some raised, w1) \<Rightarrow> (Some raised, r, w1)
      | (None, w1) \<Rightarrow>
          (let hasOnly = list_ex test_only ts in
           case run_tests hasOnly (Suite name ts be ae ba aa ns) ts (suiteResults, r, w1) of
             (Some raised, sr, r2, w2) \<Rightarrow> (Some raised, r2, w2)
           | (None, sr, r2, w2) \<Rightarrow>
               (case runSuites ns (r2, w2) of
                  (Some raised, r3, w3) \<Rightarrow> (Some raised, r3, w3)
                | (None, r3, w3) \<Rightarrow>
                    (case run_hooks_logged aa w3 of
                       (Some raised, w4) \<Rightarrow> (Some raised, r3, w4)
                     | (None, w4) \<Rightarrow>
                         (None, r3\<lparr>report_suites := report_suites r3 @ [sr]\<rparr>, w4)))))"
| "runSuites [] st = (None, st)"
| "runSuites (s # ss) st =
     (case runSuite s st of
        (Some raised, st') \<Rightarrow> (Some raised, st')
      | (None, st') \<Rightarrow> runSuites ss st')"

text \<open>
  \<^verbatim>\<open>run\<close>, lines 123-136: it returns \<^verbatim>\<open>this.results\<close>, the object the engine keeps.
\<close>

definition run :: "microtest \<Rightarrow> world \<Rightarrow> (thrown + report) \<times> microtest \<times> world" where
  "run m w =
     (let startTime = now w in
      case runSuites (suites m) (results m, w) of
        (Some raised, r, w') \<Rightarrow> (Inl raised, m\<lparr>results := r\<rparr>, w')
      | (None, r, w') \<Rightarrow>
          (let endTime = now w';
               r' = r\<lparr>duration := endTime - startTime\<rparr> in
           (Inr r', m\<lparr>results := r'\<rparr>, w')))"

section \<open>Counting and example scenarios\<close>

text \<open>
  The tests of a node that take part in a run, in the words of the specification: when
  some direct test of the node is marked \<^verbatim>\<open>only\<close>, those marked; otherwise all. The
  counted tests of a tree are those of every node, each node deciding for itself.
\<close>

definition focused :: "test_case list \<Rightarrow> test_case list" where
  "focused ts = (if list_ex test_only ts then filter test_only ts else ts)"

fun counted :: "suite \<Rightarrow> nat" where
  "counted (Suite name ts be ae ba aa ns) = length (focused ts) + sum_list (map counted ns)"

definition counters_agree :: "report \<Rightarrow> bool" where
  "counters_agree r = (total r = passed r + failed r + skipped r)"


text \<open>
  The scenario of the specification: suite "Math" with the test "adds", whose body is
  \<^verbatim>\<open>expect(2 + 2).toBe(4)\<close>. A body made of one assertion throws what the assertion
  throws, at once.
\<close>

definition assertion_body :: "thrown + unit \<Rightarrow> world \<Rightarrow> invocation" where
  "assertion_body a w = (case a of Inl error \<Rightarrow> ThrowsSync 0 error | Inr _ \<Rightarrow> Returns 0)"

definition start :: world where
  "start = \<lparr>now = 0, trace = []\<rparr>"

definition adds :: test_case where
  "adds = \<lparr>test_name = ''adds'',
           test_fn = assertion_body (toBe (expect (JNum (Fin 4))) (JNum (Fin 4))),
           test_skip = False, test_only = False, test_timeout = 5000\<rparr>"

definition math_engine :: microtest where
  "math_engine = MicroTest_new\<lparr>suites := [Suite ''Math'' [adds] [] [] [] [] []]\<rparr>"

definition math_results :: suite_results where
  "math_results = \<lparr>sr_name = ''Math'', sr_passed = 1, sr_failed = 0, sr_skipped = 0,
       sr_tests = [\<lparr>result_name = ''adds'', result_passed = True, result_error = None,
                    result_duration = 0\<rparr>]\<rparr>"





definition timed_hook :: "string \<Rightarrow> nat \<Rightarrow> outcome \<Rightarrow> hook" where
  "timed_hook label d out = \<lparr>hook_label = label, hook_fn = (\<lambda>w. (d, out))\<rparr>"


definition timed_suite :: suite where
  "timed_suite = Suite ''Timed'' [] [timed_hook ''setup'' 7 Fulfils] [timed_hook ''cleanup'' 2 Fulfils] [] [] []"

definition quick :: test_case where
  "quick = \<lparr>test_name = ''quick'', test_fn = (\<lambda>w. Returns 3), test_skip = False,
            test_only = False, test_timeout = 5000\<rparr>"

definition cleanup_suite :: suite where
  "cleanup_suite = Suite ''Cleanup'' [adds] []
     [timed_hook ''first'' 0 (Rejects ThrownNullish), timed_hook ''second'' 0 Fulfils] [] [] []"

definition focus_suite :: suite where
  "focus_suite = Suite ''Focus'' [adds\<lparr>test_only := True\<rparr>, quick] [] [] [] []
     [Suite ''Inner'' [quick] [] [] [] [] []]"


section \<open>Properties of the assertion engine\<close>

lemma deepEqual_same_container_kinds: "deepEqual a b \<Longrightarrow> same_container_kinds a b"
proof (induction a b rule: deepEqual.induct)
  case (1 a b)
  show ?case
  proof (cases "strict_eq a b")
    case True
    then show ?thesis by (simp add: same_container_kinds.simps)
  next
    case ne: False
    from "1.prems" ne have nn: "\<not> (loose_eq_null a \<or> loose_eq_null b)"
      and ty: "typeof a = typeof b"
      by (auto simp: deepEqual.simps [of a b] split: if_splits)
    from "1.prems" ne nn ty have ob: "typeof a = ''object''"
      by (auto simp: deepEqual.simps [of a b] split: if_splits)
    show ?thesis
    proof (cases "isArray a \<and> isArray b")
      case True
      with "1.prems" ne nn ty ob
      have len: "length (elements a) = length (elements b)"
        and all: "list_all (\<lambda>(item, other). deepEqual item other) (zip (elements a) (elements b))"
        by (auto simp: deepEqual.simps [of a b] split: if_splits)
      have "list_all (\<lambda>(item, other). same_container_kinds item other) (zip (elements a) (elements b))"
        unfolding list_all_iff
      proof (intro ballI)
        fix p assume p: "p \<in> set (zip (elements a) (elements b))"
        obtain x y where xy: "p = (x, y)" by (cases p)
        from all p xy have "deepEqual x y" by (auto simp: list_all_iff)
        with "1.IH"(1) [OF ne nn _ _ True _ p [unfolded xy] refl] ty ob len
        show "case p of (item, other) \<Rightarrow> same_container_kinds item other"
          using xy by simp
      qed
      with True ne show ?thesis by (simp add: same_container_kinds.simps [of a b])
    next
      case False
      with "1.prems" ne nn ty ob
      have same: "isArray a = isArray b"
        and len: "length (Object_keys a) = length (Object_keys b)"
        and all: "list_all (\<lambda>key. deepEqual (get_prop a key) (get_prop b key)) (Object_keys a)"
        by (auto simp: deepEqual.simps [of a b] Let_def split: if_splits)
      from same False have na: "\<not> isArray a" by auto
      have "list_all (\<lambda>key. same_container_kinds (get_prop a key) (get_prop b key)) (Object_keys a)"
        unfolding list_all_iff
      proof (intro ballI)
        fix key assume k: "key \<in> set (Object_keys a)"
        from all k have "deepEqual (get_prop a key) (get_prop b key)" by (auto simp: list_all_iff)
        with "1.IH"(2) [OF ne nn _ _ False _ refl refl _ k] ty ob same len
        show "same_container_kinds (get_prop a key) (get_prop b key)" by simp
      qed
      with na same ne show ?thesis by (simp add: same_container_kinds.simps [of a b])
    qed
  qed
qed

text \<open>
  C10. The two equality matchers disagree on NaN: \<^verbatim>\<open>expect(NaN).toBe(NaN)\<close> passes,
  since \<^verbatim>\<open>Object.is\<close> holds NaN equal to itself, and \<^verbatim>\<open>expect(NaN).toEqual(NaN)\<close>
  raises the assertion failure, since \<open>deepEqual\<close> compares primitives with \<open>===\<close>.
\<close>

theorem toBe_toEqual_disagree_on_NaN:
  "toBe (expect (JNum NaN)) (JNum NaN) = Inr () \<and>
   toEqual (expect (JNum NaN)) (JNum NaN) =
     Inl (Error [Lit ''Expected '', Json (JNum NaN), Lit '' '', Lit '''', Lit ''to equal '',
                 Json (JNum NaN)])"
  by (simp add: toBe_def toEqual_def expect_def deepEqual.simps)

text \<open>
  C7. Deep equality on two mappings is claimed to pass only when both expose the same set
  of own keys. The code compares the number of keys and then reads every key of the left
  mapping in both; a key the right one lacks reads as \<^verbatim>\<open>undefined\<close> there. So
  \<^verbatim>\<open>expect({x: undefined}).toEqual({y: 1})\<close> passes although the key sets differ.
\<close>

theorem toEqual_passes_on_different_key_sets:
  "toEqual (expect (JObj 1 ''Object'' [(''x'', JUndefined)]))
           (JObj 2 ''Object'' [(''y'', JNum (Fin 1))]) = Inr () \<and>
   set (Object_keys (JObj 1 ''Object'' [(''x'', JUndefined)])) \<noteq>
   set (Object_keys (JObj 2 ''Object'' [(''y'', JNum (Fin 1))]))"
  by (simp add: toEqual_def expect_def deepEqual.simps)

text \<open>
  Where the key sets do have to agree: between two distinct objects with no
  \<^verbatim>\<open>undefined\<close> property value on the left, \<^verbatim>\<open>toEqual\<close> passes only on equal key sets.
\<close>

lemma strict_eq_undefined: "strict_eq v JUndefined = (v = JUndefined)"
  by (cases v) simp_all

lemma deepEqual_undefined: "deepEqual v JUndefined = (v = JUndefined)"
  by (simp add: deepEqual.simps [of v JUndefined] strict_eq_undefined)

lemma toEqual_same_keys_unless_undefined:
  assumes pass: "toEqual (expect (JObj i c ps)) (JObj j c' qs) = Inr ()"
    and "i \<noteq> j"
    and da: "distinct (map fst ps)" and db: "distinct (map fst qs)"
    and nu: "JUndefined \<notin> snd ` set ps"
  shows "set (Object_keys (JObj i c ps)) = set (Object_keys (JObj j c' qs))"
proof -
  from pass have "deepEqual (JObj i c ps) (JObj j c' qs)"
    by (simp add: toEqual_def expect_def split: if_splits)
  with \<open>i \<noteq> j\<close> have len: "length ps = length qs"
    and all: "list_all (\<lambda>key. deepEqual (get_prop (JObj i c ps) key) (get_prop (JObj j c' qs) key))
                (map fst ps)"
    by (simp_all add: deepEqual.simps [of "JObj i c ps" "JObj j c' qs"] Let_def split: if_splits)
  have sub: "set (map fst ps) \<subseteq> set (map fst qs)"
  proof
    fix k assume k: "k \<in> set (map fst ps)"
    then obtain v where v: "map_of ps k = Some v"
      by (cases "map_of ps k") (auto simp: map_of_eq_None_iff)
    then have "(k, v) \<in> set ps" by (rule map_of_SomeD)
    with nu have vn: "v \<noteq> JUndefined" by force
    from all k v have de: "deepEqual v (get_prop (JObj j c' qs) k)"
      by (auto simp: list_all_iff)
    show "k \<in> set (map fst qs)"
    proof (rule ccontr)
      assume "k \<notin> set (map fst qs)"
      then have "map_of qs k = None" by (simp add: map_of_eq_None_iff)
      with de have "deepEqual v JUndefined" by simp
      with vn show False by (simp add: deepEqual_undefined)
    qed
  qed
  from distinct_card [OF da] distinct_card [OF db] len
  have "card (set (map fst ps)) = card (set (map fst qs))" by simp
  with sub have "set (map fst ps) = set (map fst qs)"
    by (intro card_subset_eq) simp_all
  then show ?thesis by simp
qed

text \<open>
  C8, as stated, fails: \<^verbatim>\<open>toStrictEqual\<close> compares the constructors of the two
  top-level values only and then delegates to \<open>deepEqual\<close>, which never looks at
  constructors. \<^verbatim>\<open>expect({p: new Foo()}).toStrictEqual({p: new Bar()})\<close> passes.
\<close>

theorem toStrictEqual_ignores_nested_constructors:
  "toStrictEqual (expect (JObj 1 ''Object'' [(''p'', JObj 2 ''Foo'' [])]))
                 (JObj 3 ''Object'' [(''p'', JObj 4 ''Bar'' [])]) = Inr () \<and>
   \<not> same_constructors (JObj 1 ''Object'' [(''p'', JObj 2 ''Foo'' [])])
                        (JObj 3 ''Object'' [(''p'', JObj 4 ''Bar'' [])])"
  by (simp add: toStrictEqual_def strictEqual_def expect_def deepEqual.simps
      same_constructors.simps)

text \<open>
  C8, amended. \<^verbatim>\<open>toStrictEqual\<close> passes only if the two values are deep-equal, have
  the same container kind (array or not) at every level, and either are identical or are
  both objects of the same container kind whose top-level constructors are the same.
  Constructors below the top level are not compared.
\<close>

theorem toStrictEqual_pass_only_if:
  assumes "toStrictEqual (expect a) b = Inr ()"
  shows "deepEqual a b \<and> same_container_kinds a b \<and>
         (strict_eq a b \<or>
          (typeof a = ''object'' \<and> typeof b = ''object'' \<and> isArray a = isArray b \<and>
           (\<exists>c. constructor_of a = Inr c \<and> constructor_of b = Inr c)))"
proof -
  from assms have st: "strictEqual a b = Inr True"
    by (auto simp: toStrictEqual_def expect_def split: sum.splits if_splits)
  have de: "deepEqual a b"
  proof (cases "strict_eq a b")
    case True
    then show ?thesis by (simp add: deepEqual.simps [of a b])
  next
    case False
    with st show ?thesis by (auto simp: strictEqual_def split: if_splits sum.splits)
  qed
  have top: "strict_eq a b \<or>
          (typeof a = ''object'' \<and> typeof b = ''object'' \<and> isArray a = isArray b \<and>
           (\<exists>c. constructor_of a = Inr c \<and> constructor_of b = Inr c))"
    using st by (auto simp: strictEqual_def split: if_splits sum.splits)
  from de top deepEqual_same_container_kinds [OF de] show ?thesis by blast
qed

theorem toStrictEqual_pass_only_if_witness:
  "toStrictEqual (expect (JArr 1 ''Array'' [JObj 2 ''Foo'' [(''k'', JNum (Fin 1))]]))
       (JArr 3 ''Array'' [JObj 4 ''Bar'' [(''k'', JNum (Fin 1))]]) = Inr () \<and>
   deepEqual (JArr 1 ''Array'' [JObj 2 ''Foo'' [(''k'', JNum (Fin 1))]])
       (JArr 3 ''Array'' [JObj 4 ''Bar'' [(''k'', JNum (Fin 1))]]) \<and>
   same_container_kinds (JArr 1 ''Array'' [JObj 2 ''Foo'' [(''k'', JNum (Fin 1))]])
       (JArr 3 ''Array'' [JObj 4 ''Bar'' [(''k'', JNum (Fin 1))]])"
proof -
  have h: "toStrictEqual (expect (JArr 1 ''Array'' [JObj 2 ''Foo'' [(''k'', JNum (Fin 1))]]))
       (JArr 3 ''Array'' [JObj 4 ''Bar'' [(''k'', JNum (Fin 1))]]) = Inr ()"
    by (simp add: toStrictEqual_def strictEqual_def expect_def deepEqual.simps)
  from h toStrictEqual_pass_only_if [OF h] show ?thesis by simp
qed

section \<open>Properties of the runner\<close>

lemma run_tests_counters_agree:
  "counters_agree r \<Longrightarrow> run_tests hasOnly s ts (sr, r, w) = (x, sr', r', w') \<Longrightarrow> counters_agree r'"
proof (induction ts arbitrary: sr r w)
  case Nil
  then show ?case by simp
next
  case (Cons t ts)
  show ?case
  proof (cases "hasOnly \<and> \<not> test_only t")
    case True
    with Cons.prems Cons.IH [of r sr w] show ?thesis by simp
  next
    case visit: False
    show ?thesis
    proof (cases "test_skip t")
      case True
      let ?r = "r\<lparr>skipped := skipped r + 1, total := total r + 1\<rparr>"
      from Cons.prems(1) have "counters_agree ?r" by (simp add: counters_agree_def)
      with Cons.prems(2) visit True Cons.IH [of ?r] show ?thesis by simp
    next
      case False
      obtain c w1 where rt: "runTest t s w = (c, w1)" by (cases "runTest t s w")
      show ?thesis
      proof (cases c)
        case (Inl raised)
        with Cons.prems visit False rt show ?thesis by simp
      next
        case (Inr testResult)
        let ?rp = "r\<lparr>passed := passed r + 1, total := total r + 1\<rparr>"
        let ?rf = "r\<lparr>failed := failed r + 1, total := total r + 1\<rparr>"
        from Cons.prems(1) have "counters_agree ?rp" "counters_agree ?rf"
          by (simp_all add: counters_agree_def)
        with Cons.prems(2) visit False rt Inr Cons.IH [of ?rp] Cons.IH [of ?rf]
        show ?thesis by (simp split: if_splits)
      qed
    qed
  qed
qed

lemma run_tests_total:
  "run_tests hasOnly s ts (sr, r, w) = (None, sr', r', w') \<Longrightarrow>
   total r' = total r + length (filter (\<lambda>t. \<not> (hasOnly \<and> \<not> test_only t)) ts)"
proof (induction ts arbitrary: sr r w)
  case Nil
  then show ?case by simp
next
  case (Cons t ts)
  show ?case
  proof (cases "hasOnly \<and> \<not> test_only t")
    case True
    with Cons.prems Cons.IH [of sr r w] show ?thesis by simp
  next
    case visit: False
    show ?thesis
    proof (cases "test_skip t")
      case True
      with Cons.prems visit
        Cons.IH [of "sr\<lparr>sr_skipped := sr_skipped sr + 1\<rparr>"
                    "r\<lparr>skipped := skipped r + 1, total := total r + 1\<rparr>" w]
      show ?thesis by simp
    next
      case False
      obtain c w1 where rt: "runTest t s w = (c, w1)" by (cases "runTest t s w")
      show ?thesis
      proof (cases c)
        case (Inl raised)
        with Cons.prems visit False rt show ?thesis by simp
      next
        case (Inr testResult)
        with Cons.prems visit False rt
          Cons.IH [of "sr\<lparr>sr_tests := sr_tests sr @ [testResult], sr_passed := sr_passed sr + 1\<rparr>"
                      "r\<lparr>passed := passed r + 1, total := total r + 1\<rparr>" w1]
          Cons.IH [of "sr\<lparr>sr_tests := sr_tests sr @ [testResult], sr_failed := sr_failed sr + 1\<rparr>"
                      "r\<lparr>failed := failed r + 1, total := total r + 1\<rparr>" w1]
        show ?thesis by (simp split: if_splits)
      qed
    qed
  qed
qed

lemma filter_focus:
  "filter (\<lambda>t. \<not> (list_ex test_only ts \<and> \<not> test_only t)) ts = focused ts"
  by (cases "list_ex test_only ts") (simp_all add: focused_def)

lemma runSuites_counters_agree_aux:
  assumes "\<And>s r w x r' w'. s \<in> set ss \<Longrightarrow> counters_agree r \<Longrightarrow>
             runSuite s (r, w) = (x, r', w') \<Longrightarrow> counters_agree r'"
  shows "counters_agree r \<Longrightarrow> runSuites ss (r, w) = (x, r', w') \<Longrightarrow> counters_agree r'"
  using assms
proof (induction ss arbitrary: r w)
  case Nil
  then show ?case by simp
next
  case (Cons s ss)
  obtain y r1 w1 where rs: "runSuite s (r, w) = (y, r1, w1)" by (cases "runSuite s (r, w)")
  from Cons.prems(3) [of s r w y r1 w1] Cons.prems(1) rs have ag: "counters_agree r1" by simp
  show ?case
  proof (cases y)
    case None
    with Cons.prems(2) rs have "runSuites ss (r1, w1) = (x, r', w')" by simp
    moreover have "\<And>s r w x r' w'. s \<in> set ss \<Longrightarrow> counters_agree r \<Longrightarrow>
             runSuite s (r, w) = (x, r', w') \<Longrightarrow> counters_agree r'"
      using Cons.prems(3) by (meson list.set_intros(2))
    ultimately show ?thesis by (rule Cons.IH [OF ag])
  next
    case (Some raised)
    with Cons.prems(2) rs ag show ?thesis by simp
  qed
qed

lemma runSuite_counters_agree:
  "counters_agree r \<Longrightarrow> runSuite s (r, w) = (x, r', w') \<Longrightarrow> counters_agree r'"
proof (induction s arbitrary: r w x r' w')
  case (Suite name ts be ae ba aa ns)
  obtain y w1 where h1: "run_hooks_logged ba w = (y, w1)" by (cases "run_hooks_logged ba w")
  show ?case
  proof (cases y)
    case (Some raised)
    with Suite.prems h1 show ?thesis by simp
  next
    case None
    let ?sr = "\<lparr>sr_name = name, sr_passed = 0, sr_failed = 0, sr_skipped = 0, sr_tests = []\<rparr>"
    obtain z sr r2 w2 where h2:
      "run_tests (list_ex test_only ts) (Suite name ts be ae ba aa ns) ts (?sr, r, w1) = (z, sr, r2, w2)"
      by (cases "run_tests (list_ex test_only ts) (Suite name ts be ae ba aa ns) ts (?sr, r, w1)") auto
    from run_tests_counters_agree [OF Suite.prems(1) h2] have a2: "counters_agree r2" .
    show ?thesis
    proof (cases z)
      case (Some raised)
      with Suite.prems(2) h1 None h2 a2 show ?thesis by simp
    next
      case nz: None
      obtain u r3 w3 where h3: "runSuites ns (r2, w2) = (u, r3, w3)" by (cases "runSuites ns (r2, w2)")
      have a3: "counters_agree r3"
        by (rule runSuites_counters_agree_aux [OF _ a2 h3]) (rule Suite.IH)
      then have a3': "counters_agree (r3\<lparr>report_suites := report_suites r3 @ [sr]\<rparr>)"
        by (simp add: counters_agree_def)
      from Suite.prems(2) h1 None h2 nz h3 a3 a3' show ?thesis
        by (auto split: option.splits prod.splits)
    qed
  qed
qed

lemma runSuites_counters_agree:
  "counters_agree r \<Longrightarrow> runSuites ss (r, w) = (x, r', w') \<Longrightarrow> counters_agree r'"
  by (rule runSuites_counters_agree_aux) (rule runSuite_counters_agree)


lemma runSuites_total_aux:
  assumes "\<And>s r w r' w'. s \<in> set ss \<Longrightarrow> runSuite s (r, w) = (None, r', w') \<Longrightarrow>
             total r' = total r + counted s"
  shows "runSuites ss (r, w) = (None, r', w') \<Longrightarrow> total r' = total r + sum_list (map counted ss)"
  using assms
proof (induction ss arbitrary: r w)
  case Nil
  then show ?case by simp
next
  case (Cons s ss)
  obtain y r1 w1 where rs: "runSuite s (r, w) = (y, r1, w1)" by (cases "runSuite s (r, w)")
  with Cons.prems(1) have y: "y = None" and rest: "runSuites ss (r1, w1) = (None, r', w')"
    by (auto split: option.splits)
  from Cons.prems(2) [of s r w r1 w1] rs y have t1: "total r1 = total r + counted s" by simp
  have "\<And>s r w r' w'. s \<in> set ss \<Longrightarrow> runSuite s (r, w) = (None, r', w') \<Longrightarrow>
             total r' = total r + counted s"
    using Cons.prems(2) by (meson list.set_intros(2))
  with rest have "total r' = total r1 + sum_list (map counted ss)" by (rule Cons.IH)
  with t1 show ?case by simp
qed

lemma runSuite_total:
  "runSuite s (r, w) = (None, r', w') \<Longrightarrow> total r' = total r + counted s"
proof (induction s arbitrary: r w r' w')
  case (Suite name ts be ae ba aa ns)
  let ?sr = "\<lparr>sr_name = name, sr_passed = 0, sr_failed = 0, sr_skipped = 0, sr_tests = []\<rparr>"
  from Suite.prems obtain w1 sr r2 w2 r3 w3 where
        h1: "run_hooks_logged ba w = (None, w1)"
    and h2: "run_tests (list_ex test_only ts) (Suite name ts be ae ba aa ns) ts (?sr, r, w1) = (None, sr, r2, w2)"
    and h3: "runSuites ns (r2, w2) = (None, r3, w3)"
    and h4: "r' = r3\<lparr>report_suites := report_suites r3 @ [sr]\<rparr>"
    by (auto split: option.splits prod.splits)
  from run_tests_total [OF h2] have "total r2 = total r + length (focused ts)"
    unfolding filter_focus .
  moreover have "total r3 = total r2 + sum_list (map counted ns)"
    by (rule runSuites_total_aux [OF _ h3]) (rule Suite.IH)
  ultimately show ?case using h4 by simp
qed

lemma runSuites_total:
  "runSuites ss (r, w) = (None, r', w') \<Longrightarrow> total r' = total r + sum_list (map counted ss)"
  by (rule runSuites_total_aux) (rule runSuite_total)

lemma runTest_hooks_only:
  "suite_beforeEach s = suite_beforeEach s' \<Longrightarrow> suite_afterEach s = suite_afterEach s' \<Longrightarrow>
   runTest t s w = runTest t s' w"
  by (simp add: runTest_def try_block_def)

lemma run_tests_hooks_only:
  assumes "suite_beforeEach s = suite_beforeEach s'" and "suite_afterEach s = suite_afterEach s'"
  shows "run_tests hasOnly s ts st = run_tests hasOnly s' ts st"
proof (induction ts arbitrary: st hasOnly)
  case Nil
  then show ?case by simp
next
  case (Cons t ts)
  obtain sr r w where st: "st = (sr, r, w)" by (cases st)
  from assms have rt: "runTest t s w = runTest t s' w" by (rule runTest_hooks_only)
  show ?case unfolding st run_tests.simps rt
    by (simp add: Cons.IH split: prod.splits sum.splits)
qed

lemma run_tests_focus:
  "run_tests True s ts st = run_tests True s (filter test_only ts) st"
proof (induction ts arbitrary: st)
  case Nil
  then show ?case by simp
next
  case (Cons t ts)
  obtain sr r w where st: "st = (sr, r, w)" by (cases st)
  show ?case
  proof (cases "test_only t")
    case False
    with st Cons.IH show ?thesis by simp
  next
    case True
    with st Cons.IH show ?thesis
      by (auto split: prod.splits sum.splits)
  qed
qed

lemma runSuite_focus:
  assumes "list_ex test_only ts"
  shows "runSuite (Suite name ts be ae ba aa ns) st =
         runSuite (Suite name (filter test_only ts) be ae ba aa ns) st"
proof -
  obtain r w where st: "st = (r, w)" by (cases st)
  from assms have ex: "list_ex test_only (filter test_only ts)"
    by (auto simp: list_ex_iff)
  have "run_tests True (Suite name ts be ae ba aa ns) ts st' =
        run_tests True (Suite name (filter test_only ts) be ae ba aa ns) (filter test_only ts) st'" for st'
    using run_tests_focus [of "Suite name ts be ae ba aa ns" ts st']
      run_tests_hooks_only [of "Suite name ts be ae ba aa ns"
        "Suite name (filter test_only ts) be ae ba aa ns" True "filter test_only ts" st']
    by simp
  moreover from assms ex have "list_ex test_only ts = True"
    and "list_ex test_only (filter test_only ts) = True" by simp_all
  ultimately show ?thesis unfolding st
    by (simp add: Let_def cong: option.case_cong prod.case_cong)
qed

text \<open>
  The counters agree in the engine the constructor builds, registration does not touch
  them, and every run, resolved or rejected, leaves them agreeing.
\<close>

lemma MicroTest_new_counters_agree: "counters_agree (results MicroTest_new)"
  by (simp add: counters_agree_def MicroTest_new_def)

lemma run_preserves_counters_agree:
  assumes "counters_agree (results m)" and "run m w = (x, m', w')"
  shows "counters_agree (results m')"
proof -
  obtain y r w1 where rs: "runSuites (suites m) (results m, w) = (y, r, w1)"
    by (cases "runSuites (suites m) (results m, w)")
  from runSuites_counters_agree [OF assms(1) rs] have "counters_agree r" .
  then have "counters_agree (r\<lparr>duration := now w1 - now w\<rparr>)"
    by (simp add: counters_agree_def)
  with \<open>counters_agree r\<close> assms(2) rs show ?thesis
    by (auto simp: run_def Let_def split: option.splits)
qed

lemma registration_keeps_results:
  "it name fn opts m = Inr m' \<Longrightarrow> results m' = results m"
  "beforeEach h m = Inr m' \<Longrightarrow> results m' = results m"
  "afterEach h m = Inr m' \<Longrightarrow> results m' = results m"
  "beforeAll h m = Inr m' \<Longrightarrow> results m' = results m"
  "afterAll h m = Inr m' \<Longrightarrow> results m' = results m"
  by (auto simp: it_def beforeEach_def afterEach_def beforeAll_def afterAll_def
      split: option.splits suite.splits)

lemmas runner_defs = run_def runTest_def try_block_def run_body_def call_hook_def
  assertion_body_def toBe_def expect_def MicroTest_new_def focused_def timeout_error_def Let_def

text \<open>
  C1. After \<^verbatim>\<open>run()\<close> resolves, the report satisfies
  \<open>total = passed + failed + skipped\<close>, and \<open>total\<close> has grown by one for each counted
  test. The counters of the engine agree when it is constructed and are never reset, so
  the statement is about any engine whose counters agree before the run.
\<close>

theorem run_counters_agree:
  assumes "total (results m) = passed (results m) + failed (results m) + skipped (results m)"
    and "run m w = (Inr rep, m', w')"
  shows "total rep = passed rep + failed rep + skipped rep \<and>
         total rep = total (results m) + sum_list (map counted (suites m))"
proof -
  from assms(2) obtain r where rs: "runSuites (suites m) (results m, w) = (None, r, w')"
    and rep: "rep = r\<lparr>duration := now w' - now w\<rparr>"
    by (auto simp: run_def Let_def split: prod.splits option.splits)
  from assms(1) have "counters_agree (results m)" by (simp add: counters_agree_def)
  from runSuites_counters_agree [OF this rs] rep
  have "total rep = passed rep + failed rep + skipped rep" by (simp add: counters_agree_def)
  moreover from runSuites_total [OF rs] rep
  have "total rep = total (results m) + sum_list (map counted (suites m))" by simp
  ultimately show ?thesis by simp
qed

lemma math_run:
  "run math_engine start =
     (Inr \<lparr>passed = 1, failed = 0, skipped = 0, total = 1, duration = 0,
           report_suites = [math_results]\<rparr>,
      math_engine\<lparr>results := \<lparr>passed = 1, failed = 0, skipped = 0, total = 1, duration = 0,
           report_suites = [math_results]\<rparr>\<rparr>,
      \<lparr>now = 0, trace = [BodyCalled ''adds'']\<rparr>)"
  by (simp add: runner_defs start_def adds_def math_engine_def math_results_def)

theorem run_counters_agree_witness:
  "total (results math_engine) =
     passed (results math_engine) + failed (results math_engine) + skipped (results math_engine) \<and>
   fst (run math_engine start) =
     Inr \<lparr>passed = 1, failed = 0, skipped = 0, total = 1, duration = 0,
          report_suites = [math_results]\<rparr> \<and>
   (1::nat) = 1 + 0 + 0 \<and>
   (1::nat) = total (results math_engine) + sum_list (map counted (suites math_engine))"
proof -
  have h: "total (results math_engine) =
     passed (results math_engine) + failed (results math_engine) + skipped (results math_engine)"
    by (simp add: math_engine_def MicroTest_new_def)
  from run_counters_agree [OF h math_run] h math_run show ?thesis by simp
qed








text \<open>
  C5, as stated, fails for hooks: \<^verbatim>\<open>beforeEach\<close>, \<^verbatim>\<open>afterEach\<close>, \<^verbatim>\<open>beforeAll\<close> and
  \<^verbatim>\<open>afterAll\<close> are guarded by \<^verbatim>\<open>if (this.currentSuite)\<close> and do nothing, without
  raising, when no suite is current.
\<close>

theorem hook_outside_suite_is_silent:
  "beforeEach \<lparr>hook_label = ''setup'', hook_fn = (\<lambda>w. (0, Fulfils))\<rparr> MicroTest_new = Inr MicroTest_new"
  by (simp add: beforeEach_def MicroTest_new_def)

text \<open>
  C5, amended. While no suite is current, every call of \<^verbatim>\<open>it\<close> or \<^verbatim>\<open>test\<close> (and
  of \<^verbatim>\<open>skip\<close> and \<^verbatim>\<open>only\<close>, which call \<^verbatim>\<open>it\<close>) throws
  an Error ("Tests must be defined inside a describe block") and registers nothing;
  every call of \<^verbatim>\<open>beforeEach\<close>, \<^verbatim>\<open>afterEach\<close>, \<^verbatim>\<open>beforeAll\<close> or \<^verbatim>\<open>afterAll\<close>
  returns normally and leaves the engine unchanged: the hook is dropped silently.
\<close>

theorem registration_outside_suite:
  assumes "currentSuite m = None"
  shows "it name fn opts m = Inl (Error [Lit ''Tests must be defined inside a describe block'']) \<and>
         test name fn opts m = Inl (Error [Lit ''Tests must be defined inside a describe block'']) \<and>
         skip name fn m = Inl (Error [Lit ''Tests must be defined inside a describe block'']) \<and>
         only name fn m = Inl (Error [Lit ''Tests must be defined inside a describe block'']) \<and>
         beforeEach h m = Inr m \<and> afterEach h m = Inr m \<and>
         beforeAll h m = Inr m \<and> afterAll h m = Inr m"
  using assms
  by (simp add: it_def test_def skip_def only_def beforeEach_def afterEach_def beforeAll_def
      afterAll_def)

theorem registration_outside_suite_witness:
  "currentSuite MicroTest_new = None \<and>
   it ''adds'' (test_fn adds) no_options MicroTest_new =
     Inl (Error [Lit ''Tests must be defined inside a describe block'']) \<and>
   afterAll \<lparr>hook_label = ''cleanup'', hook_fn = (\<lambda>w. (0, Fulfils))\<rparr> MicroTest_new =
     Inr MicroTest_new"
proof -
  have h: "currentSuite MicroTest_new = None" by (simp add: MicroTest_new_def)
  from registration_outside_suite [OF h] h show ?thesis by simp
qed








text \<open>
  C4. Focus mode is evaluated per suite node. When some direct test of a node is marked
  \<^verbatim>\<open>only\<close>, running the node is the same (outcome, report, clock and trace of calls) as
  running it with its unmarked direct tests removed: they are neither executed nor
  counted. A resolving run of the node adds to \<open>total\<close> its marked tests and, for every
  descendant, the tests that node counts by its own markers.
\<close>

theorem focus_mode_per_suite_node:
  assumes "list_ex test_only ts"
  shows "runSuite (Suite name ts be ae ba aa ns) st =
           runSuite (Suite name (filter test_only ts) be ae ba aa ns) st \<and>
         (runSuite (Suite name ts be ae ba aa ns) (r, w) = (None, r', w') \<longrightarrow>
            total r' = total r + length (filter test_only ts) + sum_list (map counted ns))"
proof -
  from assms have "focused ts = filter test_only ts" by (simp add: focused_def)
  then have "counted (Suite name ts be ae ba aa ns) =
      length (filter test_only ts) + sum_list (map counted ns)" by simp
  with runSuite_total [of "Suite name ts be ae ba aa ns" r w r' w']
    runSuite_focus [OF assms, of name be ae ba aa ns st]
  show ?thesis by simp
qed

lemma focus_run:
  "runSuite focus_suite (results MicroTest_new, start) =
     (None,
      \<lparr>passed = 2, failed = 0, skipped = 0, total = 2, duration = 0,
        report_suites =
          [\<lparr>sr_name = ''Inner'', sr_passed = 1, sr_failed = 0, sr_skipped = 0,
             sr_tests = [\<lparr>result_name = ''quick'', result_passed = True, result_error = None,
                          result_duration = 3\<rparr>]\<rparr>,
           \<lparr>sr_name = ''Focus'', sr_passed = 1, sr_failed = 0, sr_skipped = 0,
             sr_tests = [\<lparr>result_name = ''adds'', result_passed = True, result_error = None,
                          result_duration = 0\<rparr>]\<rparr>]\<rparr>,
      \<lparr>now = 3, trace = [BodyCalled ''adds'', BodyCalled ''quick'']\<rparr>)"
  by (simp add: runner_defs focus_suite_def adds_def quick_def start_def)

theorem focus_mode_per_suite_node_witness:
  "list_ex test_only [adds\<lparr>test_only := True\<rparr>, quick] \<and>
   runSuite focus_suite (results MicroTest_new, start) =
     runSuite (Suite ''Focus'' [adds\<lparr>test_only := True\<rparr>] [] [] [] []
                 [Suite ''Inner'' [quick] [] [] [] [] []]) (results MicroTest_new, start) \<and>
   fst (snd (runSuite focus_suite (results MicroTest_new, start))) =
     \<lparr>passed = 2, failed = 0, skipped = 0, total = 2, duration = 0,
        report_suites =
          [\<lparr>sr_name = ''Inner'', sr_passed = 1, sr_failed = 0, sr_skipped = 0,
             sr_tests = [\<lparr>result_name = ''quick'', result_passed = True, result_error = None,
                          result_duration = 3\<rparr>]\<rparr>,
           \<lparr>sr_name = ''Focus'', sr_passed = 1, sr_failed = 0, sr_skipped = 0,
             sr_tests = [\<lparr>result_name = ''adds'', result_passed = True, result_error = None,
                          result_duration = 0\<rparr>]\<rparr>]\<rparr> \<and>
   (2::nat) = total (results MicroTest_new) + length (filter test_only [adds\<lparr>test_only := True\<rparr>, quick])
              + sum_list (map counted [Suite ''Inner'' [quick] [] [] [] [] []])"
proof -
  have h: "list_ex test_only [adds\<lparr>test_only := True\<rparr>, quick]"
    by (simp add: adds_def)
  note inst = focus_mode_per_suite_node [OF h, of "''Focus''" "[]" "[]" "[]" "[]"
      "[Suite ''Inner'' [quick] [] [] [] [] []]" "(results MicroTest_new, start)"
      "results MicroTest_new" start _
      "\<lparr>now = 3, trace = [BodyCalled ''adds'', BodyCalled ''quick'']\<rparr>",
      folded focus_suite_def]
  have f: "filter test_only [adds\<lparr>test_only := True\<rparr>, quick] = [adds\<lparr>test_only := True\<rparr>]"
    by (simp add: quick_def)
  from inst have e1: "runSuite focus_suite (results MicroTest_new, start) =
     runSuite (Suite ''Focus'' [adds\<lparr>test_only := True\<rparr>] [] [] [] []
                 [Suite ''Inner'' [quick] [] [] [] [] []]) (results MicroTest_new, start)"
    unfolding f by (rule conjunct1)
  have "total \<lparr>passed = 2, failed = 0, skipped = 0, total = 2, duration = 0,
        report_suites =
          [\<lparr>sr_name = ''Inner'', sr_passed = 1, sr_failed = 0, sr_skipped = 0,
             sr_tests = [\<lparr>result_name = ''quick'', result_passed = True, result_error = None,
                          result_duration = 3\<rparr>]\<rparr>,
           \<lparr>sr_name = ''Focus'', sr_passed = 1, sr_failed = 0, sr_skipped = 0,
             sr_tests = [\<lparr>result_name = ''adds'', result_passed = True, result_error = None,
                          result_duration = 0\<rparr>]\<rparr>]\<rparr> =
      total (results MicroTest_new) + length (filter test_only [adds\<lparr>test_only := True\<rparr>, quick])
              + sum_list (map counted [Suite ''Inner'' [quick] [] [] [] [] []])"
    using inst [THEN conjunct2, THEN mp, OF focus_run] .
  then have e4: "(2::nat) = total (results MicroTest_new) + length (filter test_only [adds\<lparr>test_only := True\<rparr>, quick])
              + sum_list (map counted [Suite ''Inner'' [quick] [] [] [] [] []])"
    by simp
  have e3: "fst (snd (runSuite focus_suite (results MicroTest_new, start))) =
     \<lparr>passed = 2, failed = 0, skipped = 0, total = 2, duration = 0,
        report_suites =
          [\<lparr>sr_name = ''Inner'', sr_passed = 1, sr_failed = 0, sr_skipped = 0,
             sr_tests = [\<lparr>result_name = ''quick'', result_passed = True, result_error = None,
                          result_duration = 3\<rparr>]\<rparr>,
           \<lparr>sr_name = ''Focus'', sr_passed = 1, sr_failed = 0, sr_skipped = 0,
             sr_tests = [\<lparr>result_name = ''adds'', result_passed = True, result_error = None,
                          result_duration = 0\<rparr>]\<rparr>]\<rparr>"
    unfolding focus_run by simp
  from h e1 e3 e4 show ?thesis by (intro conjI)
qed

lemma call_hook_now: "call_hook h w = (out, w') \<Longrightarrow> now w \<le> now w'"
  by (auto simp: call_hook_def split: prod.splits)

lemma call_hook_trace:
  "call_hook h w = (out, w') \<Longrightarrow> trace w' = trace w @ [HookCalled (hook_label h)]"
  by (auto simp: call_hook_def split: prod.splits)

lemma run_beforeEach_now: "run_beforeEach hs w = (x, w') \<Longrightarrow> now w \<le> now w'"
proof (induction hs arbitrary: w)
  case Nil
  then show ?case by simp
next
  case (Cons h hs)
  obtain out w1 where c: "call_hook h w = (out, w1)" by (cases "call_hook h w")
  from call_hook_now [OF c] have le: "now w \<le> now w1" .
  show ?case
  proof (cases out)
    case Fulfils
    with Cons.prems c have "run_beforeEach hs w1 = (x, w')" by simp
    from Cons.IH [OF this] le show ?thesis by simp
  next
    case (Rejects error)
    with Cons.prems c le show ?thesis by simp
  qed
qed

lemma run_body_now: "run_body t w = (out, w') \<Longrightarrow> now w \<le> now w'"
  by (auto simp: run_body_def Let_def split: invocation.splits prod.splits)

text \<open>
  C9, as stated, fails: \<^verbatim>\<open>startTime\<close> is read at the top of \<^verbatim>\<open>runTest\<close>, before the
  \<^verbatim>\<open>beforeEach\<close> loop. With a \<^verbatim>\<open>beforeEach\<close> hook of 7 ms and a body of 3 ms the
  recorded duration is 10 ms.
\<close>

theorem duration_includes_beforeEach:
  "run_beforeEach (suite_beforeEach timed_suite) start = (None, \<lparr>now = 7, trace = [HookCalled ''setup'']\<rparr>) \<and>
   run_body quick \<lparr>now = 7, trace = [HookCalled ''setup'']\<rparr> =
     (Fulfils, \<lparr>now = 10, trace = [HookCalled ''setup'', BodyCalled ''quick'']\<rparr>) \<and>
   fst (runTest quick timed_suite start) =
     Inr \<lparr>result_name = ''quick'', result_passed = True, result_error = None,
          result_duration = 10\<rparr>"
  by (simp add: runner_defs timed_suite_def timed_hook_def quick_def start_def)

text \<open>
  C9, amended. For every executed test, the recorded duration spans the suite's
  \<^verbatim>\<open>beforeEach\<close> hooks and the body's timeout-raced invocation; the \<^verbatim>\<open>afterEach\<close>
  hooks run after the duration has been taken and are not included.
\<close>

theorem duration_spans_beforeEach_and_body:
  assumes "run_beforeEach (suite_beforeEach s) w = (None, w1)"
    and "run_body t w1 = (out, w2)"
    and "runTest t s w = (Inr res, w')"
  shows "result_duration res = (now w1 - now w) + (now w2 - now w1) \<and>
         run_hooks_logged (suite_afterEach s) w2 = (None, w')"
proof -
  from assms(1) have le1: "now w \<le> now w1" by (rule run_beforeEach_now)
  from assms(2) have le2: "now w1 \<le> now w2" by (rule run_body_now)
  from assms(1,2) have tb: "try_block t s w = ((case out of Fulfils \<Rightarrow> None | Rejects e \<Rightarrow> Some e), w2)"
    by (simp add: try_block_def split: outcome.splits)
  from assms(3) tb have "result_duration res = now w2 - now w"
    and ae: "run_hooks_logged (suite_afterEach s) w2 = (None, w')"
    by (auto simp: runTest_def Let_def split: prod.splits option.splits outcome.splits)
  with le1 le2 show ?thesis by simp
qed

theorem duration_spans_beforeEach_and_body_witness:
  "run_beforeEach (suite_beforeEach timed_suite) start = (None, \<lparr>now = 7, trace = [HookCalled ''setup'']\<rparr>) \<and>
   run_body quick \<lparr>now = 7, trace = [HookCalled ''setup'']\<rparr> =
     (Fulfils, \<lparr>now = 10, trace = [HookCalled ''setup'', BodyCalled ''quick'']\<rparr>) \<and>
   runTest quick timed_suite start =
     (Inr \<lparr>result_name = ''quick'', result_passed = True, result_error = None,
           result_duration = 10\<rparr>,
      \<lparr>now = 12, trace = [HookCalled ''setup'', BodyCalled ''quick'', HookCalled ''cleanup'']\<rparr>) \<and>
   (10::nat) = (7 - 0) + (10 - 7) \<and>
   run_hooks_logged (suite_afterEach timed_suite)
       \<lparr>now = 10, trace = [HookCalled ''setup'', BodyCalled ''quick'']\<rparr> =
     (None, \<lparr>now = 12, trace = [HookCalled ''setup'', BodyCalled ''quick'', HookCalled ''cleanup'']\<rparr>)"
proof -
  have h1: "run_beforeEach (suite_beforeEach timed_suite) start =
      (None, \<lparr>now = 7, trace = [HookCalled ''setup'']\<rparr>)"
    by (simp add: runner_defs timed_suite_def timed_hook_def quick_def start_def)
  have h2: "run_body quick \<lparr>now = 7, trace = [HookCalled ''setup'']\<rparr> =
     (Fulfils, \<lparr>now = 10, trace = [HookCalled ''setup'', BodyCalled ''quick'']\<rparr>)"
    by (simp add: runner_defs timed_suite_def timed_hook_def quick_def start_def)
  have h3: "runTest quick timed_suite start =
     (Inr \<lparr>result_name = ''quick'', result_passed = True, result_error = None,
           result_duration = 10\<rparr>,
      \<lparr>now = 12, trace = [HookCalled ''setup'', BodyCalled ''quick'', HookCalled ''cleanup'']\<rparr>)"
    by (simp add: runner_defs timed_suite_def timed_hook_def quick_def start_def)
  from duration_spans_beforeEach_and_body [OF h1 h2 h3] h1 h2 h3 show ?thesis by simp
qed

text \<open>
  The \<^verbatim>\<open>afterEach\<close> hooks all run, in declaration order, whether the body passed or
  the \<^verbatim>\<open>try\<close> block failed, as long as no hook fails with \<^verbatim>\<open>null\<close> or \<^verbatim>\<open>undefined\<close>.
\<close>

lemma run_hooks_logged_all_run:
  assumes "\<And>h w d. h \<in> set hs \<Longrightarrow> hook_fn h w \<noteq> (d, Rejects ThrownNullish)"
  shows "\<exists>w'. run_hooks_logged hs w = (None, w') \<and>
              trace w' = trace w @ map (\<lambda>h. HookCalled (hook_label h)) hs"
  using assms
proof (induction hs arbitrary: w)
  case Nil
  then show ?case by simp
next
  case (Cons h hs)
  obtain d out where f: "hook_fn h w = (d, out)" by (cases "hook_fn h w")
  let ?w1 = "w\<lparr>now := now w + d, trace := trace w @ [HookCalled (hook_label h)]\<rparr>"
  from f have c: "call_hook h w = (out, ?w1)" by (simp add: call_hook_def)
  from Cons.prems [of h w d] f have nn: "out \<noteq> Rejects ThrownNullish" by auto
  have "\<And>h w d. h \<in> set hs \<Longrightarrow> hook_fn h w \<noteq> (d, Rejects ThrownNullish)"
    using Cons.prems by (meson list.set_intros(2))
  from Cons.IH [OF this, of ?w1] obtain w' where
    rest: "run_hooks_logged hs ?w1 = (None, w')"
    and tr: "trace w' = trace ?w1 @ map (\<lambda>h. HookCalled (hook_label h)) hs" by blast
  have "run_hooks_logged (h # hs) w = run_hooks_logged hs ?w1"
  proof (cases out)
    case Fulfils
    with c show ?thesis by simp
  next
    case (Rejects error)
    with nn have "read_message error = None" by (cases error) simp_all
    with c Rejects show ?thesis by simp
  qed
  with rest tr show ?case by simp
qed

lemma afterEach_hooks_run_unless_nullish:
  assumes "\<And>h w d. h \<in> set (suite_afterEach s) \<Longrightarrow> hook_fn h w \<noteq> (d, Rejects ThrownNullish)"
    and "try_block t s w = (caught, w2)"
  shows "trace (snd (runTest t s w)) =
           trace w2 @ map (\<lambda>h. HookCalled (hook_label h)) (suite_afterEach s) \<and>
         (caught = None \<longrightarrow>
            fst (runTest t s w) = Inr \<lparr>result_name = test_name t, result_passed = True,
              result_error = None, result_duration = now w2 - now w\<rparr>) \<and>
         (\<forall>error. caught = Some error \<and> error \<noteq> ThrownNullish \<longrightarrow>
            fst (runTest t s w) = Inr \<lparr>result_name = test_name t, result_passed = False,
              result_error = Some error, result_duration = now w2 - now w\<rparr>)"
proof -
  from run_hooks_logged_all_run [OF assms(1), of "suite_afterEach s" w2]
  obtain w' where ae: "run_hooks_logged (suite_afterEach s) w2 = (None, w')"
    and tr: "trace w' = trace w2 @ map (\<lambda>h. HookCalled (hook_label h)) (suite_afterEach s)"
    by blast
  have rm: "read_message error = None" if "error \<noteq> ThrownNullish" for error
    using that by (cases error) simp_all
  from ae tr assms(2) rm show ?thesis
    by (auto simp: runTest_def Let_def split: option.splits)
qed

text \<open>
  C6. Each \<^verbatim>\<open>afterEach\<close> failure is claimed to be caught without changing the recorded
  outcome or stopping the remaining hooks. The handler reads \<^verbatim>\<open>error.message\<close>; when a
  hook fails with \<^verbatim>\<open>undefined\<close> (as \<^verbatim>\<open>Promise.reject()\<close> does) that read raises a
  TypeError inside \<^verbatim>\<open>finally\<close>: the second hook is never called, \<^verbatim>\<open>runTest\<close>
  rejects although the body passed, and so does the whole run, with nothing counted.
\<close>

theorem nullish_afterEach_failure_escapes:
  "runTest adds cleanup_suite start =
     (Inl TypeError, \<lparr>now = 0, trace = [BodyCalled ''adds'', HookCalled ''first'']\<rparr>) \<and>
   run (MicroTest_new\<lparr>suites := [cleanup_suite]\<rparr>) start =
     (Inl TypeError, MicroTest_new\<lparr>suites := [cleanup_suite]\<rparr>,
      \<lparr>now = 0, trace = [BodyCalled ''adds'', HookCalled ''first'']\<rparr>)"
  by (simp add: runner_defs cleanup_suite_def timed_hook_def adds_def start_def)

end
